theory Spec2Isabelle
  imports Main
begin

section \<open>Amount extraction from a transcript (backend.py, \<open>extract_amount\<close>)\<close>

text \<open>
  A Python \<open>str\<close> is a sequence of code points. The model covers the code points
  0 to 255, one \<^typ>\<open>char\<close> each, with the classification CPython gives them:
  \<open>\d\<close> and \<open>\s\<close> and \<open>\w\<close> of the \<open>re\<close> module on \<open>str\<close> patterns,
  \<open>str.split()\<close> and \<open>str.lower()\<close>. Integers are Python's unbounded integers;
  the conversion \<open>int\<close> of a string has CPython's limit on the number of digits, at
  its default. Memory is outside the model.
\<close>

subsection \<open>Characters\<close>

definition cp :: "char \<Rightarrow> nat" where
  "cp c = of_char c"

text \<open>\<open>\d\<close>: the decimal digits (category Nd).\<close>

definition is_decimal :: "char \<Rightarrow> bool" where
  "is_decimal c = (48 \<le> cp c \<and> cp c \<le> 57)"

text \<open>\<open>\s\<close> and the separators of \<open>str.split()\<close>: \<open>str.isspace\<close>.\<close>

definition is_space :: "char \<Rightarrow> bool" where
  "is_space c = ((9 \<le> cp c \<and> cp c \<le> 13) \<or> (28 \<le> cp c \<and> cp c \<le> 32)
                  \<or> cp c = 133 \<or> cp c = 160)"

text \<open>\<open>str.isalnum\<close>: letters, decimal digits, and the other digits and numerics
  (superscripts 1 to 3, the vulgar fractions).\<close>

definition is_alnum :: "char \<Rightarrow> bool" where
  "is_alnum c =
     ((48 \<le> cp c \<and> cp c \<le> 57) \<or> (65 \<le> cp c \<and> cp c \<le> 90) \<or> (97 \<le> cp c \<and> cp c \<le> 122)
      \<or> cp c = 170 \<or> cp c = 178 \<or> cp c = 179 \<or> cp c = 181 \<or> cp c = 185 \<or> cp c = 186
      \<or> (188 \<le> cp c \<and> cp c \<le> 190)
      \<or> (192 \<le> cp c \<and> cp c \<le> 214) \<or> (216 \<le> cp c \<and> cp c \<le> 246) \<or> 248 \<le> cp c)"

text \<open>\<open>\w\<close>: alphanumeric or the underscore.\<close>

definition is_word :: "char \<Rightarrow> bool" where
  "is_word c = (is_alnum c \<or> c = CHR ''_'')"

text \<open>\<open>str.lower()\<close>, one code point at a time.\<close>

definition lower_char :: "char \<Rightarrow> char" where
  "lower_char c =
     (if (65 \<le> cp c \<and> cp c \<le> 90) \<or> (192 \<le> cp c \<and> cp c \<le> 214) \<or> (216 \<le> cp c \<and> cp c \<le> 222)
      then char_of (cp c + 32) else c)"

definition lower :: "string \<Rightarrow> string" where
  "lower s = map lower_char s"

subsection \<open>Library calls\<close>

datatype py_error = ValueError | IndexError | KeyError

text \<open>\<open>re.findall(r'\d+', text)\<close>: the maximal runs of decimal digits, left to right.\<close>

function findall_digits :: "string \<Rightarrow> string list" where
  "findall_digits [] = []"
| "findall_digits (c # cs) =
     (if is_decimal c
      then (c # takeWhile is_decimal cs) # findall_digits (dropWhile is_decimal cs)
      else findall_digits cs)"
  by pat_completeness auto
termination
  by (relation "measure length") (auto simp: length_dropWhile_le less_Suc_eq_le)

text \<open>\<open>str.split()\<close> with no separator: the maximal runs of non-whitespace.\<close>

function py_split :: "string \<Rightarrow> string list" where
  "py_split [] = []"
| "py_split (c # cs) =
     (if is_space c then py_split cs
      else (c # takeWhile (\<lambda>x. \<not> is_space x) cs) # py_split (dropWhile (\<lambda>x. \<not> is_space x) cs))"
  by pat_completeness auto
termination
  by (relation "measure length") (auto simp: length_dropWhile_le less_Suc_eq_le)

text \<open>\<open>re.sub(r'[^\w\s]', '', word)\<close>: every character of the class is replaced by
  the empty string.\<close>

fun re_sub_punct :: "string \<Rightarrow> string" where
  "re_sub_punct [] = []"
| "re_sub_punct (c # cs) =
     (if \<not> (is_word c \<or> is_space c) then [] @ re_sub_punct cs else c # re_sub_punct cs)"

text \<open>\<open>int(s)\<close> in base 10: surrounding whitespace, an optional sign, then digits with
  single underscores between them; \<open>ValueError\<close> otherwise. CPython (3.11, and the
  security releases of the earlier versions) also refuses a string of more than
  \<open>sys.get_int_max_str_digits()\<close> digits with \<open>ValueError\<close>; the default is 4300,
  and underscores do not count.\<close>

definition max_str_digits :: nat where
  "max_str_digits = 4300"

definition py_strip :: "string \<Rightarrow> string" where
  "py_strip s = rev (dropWhile is_space (rev (dropWhile is_space s)))"

fun digits_ok :: "string \<Rightarrow> bool" where
  "digits_ok [] = False"
| "digits_ok [c] = is_decimal c"
| "digits_ok (c # d # cs) =
     (is_decimal c \<and> (if d = CHR ''_'' then digits_ok cs else digits_ok (d # cs)))"

definition digit_val :: "char \<Rightarrow> int" where
  "digit_val c = int (cp c) - 48"

definition parse_digits :: "string \<Rightarrow> int" where
  "parse_digits s = foldl (\<lambda>acc c. 10 * acc + digit_val c) 0 s"

definition py_int :: "string \<Rightarrow> py_error + int" where
  "py_int s =
     (let t = py_strip s;
          neg = (t \<noteq> [] \<and> hd t = CHR ''-'');
          u = (if t \<noteq> [] \<and> (hd t = CHR ''-'' \<or> hd t = CHR ''+'') then tl t else t)
      in if \<not> digits_ok u then Inl ValueError
         else if max_str_digits < length (filter is_decimal u) then Inl ValueError
         else Inr ((if neg then - 1 else 1) * parse_digits (filter is_decimal u)))"

text \<open>\<open>xs[0]\<close>.\<close>

definition first :: "'a list \<Rightarrow> py_error + 'a" where
  "first xs = (case xs of [] \<Rightarrow> Inl IndexError | x # _ \<Rightarrow> Inr x)"

subsection \<open>The table and the loop\<close>

definition words_to_numbers :: "string \<rightharpoonup> int" where
  "words_to_numbers = map_of
     [(''zero'', 0), (''one'', 1), (''two'', 2), (''three'', 3), (''four'', 4),
      (''five'', 5), (''six'', 6), (''seven'', 7), (''eight'', 8), (''nine'', 9),
      (''ten'', 10), (''eleven'', 11), (''twelve'', 12), (''thirteen'', 13),
      (''fourteen'', 14), (''fifteen'', 15), (''sixteen'', 16), (''seventeen'', 17),
      (''eighteen'', 18), (''nineteen'', 19), (''twenty'', 20), (''thirty'', 30),
      (''forty'', 40), (''fifty'', 50), (''sixty'', 60), (''seventy'', 70),
      (''eighty'', 80), (''ninety'', 90), (''hundred'', 100), (''thousand'', 1000)]"

text \<open>\<open>words_to_numbers[word]\<close>.\<close>

definition getitem :: "(string \<rightharpoonup> int) \<Rightarrow> string \<Rightarrow> py_error + int" where
  "getitem m k = (case m k of None \<Rightarrow> Inl KeyError | Some v \<Rightarrow> Inr v)"

record locals =
  total :: int
  current :: int

text \<open>One iteration of \<open>for word in words\<close>.\<close>

definition body :: "locals \<Rightarrow> string \<Rightarrow> py_error + locals" where
  "body st word0 =
     (let word = re_sub_punct word0 in
      if words_to_numbers word \<noteq> None then
        (case getitem words_to_numbers word of
           Inl e \<Rightarrow> Inl e
         | Inr num \<Rightarrow>
             if num = 100 then
               Inr (st\<lparr>current := (if current st \<noteq> 0 then current st * 100 else 100)\<rparr>)
             else if num = 1000 then
               (let cur = (if current st \<noteq> 0 then current st else 1) * 1000
                in Inr (st\<lparr>total := total st + cur, current := 0\<rparr>))
             else Inr (st\<lparr>current := current st + num\<rparr>))
      else Inr st)"

fun loop :: "locals \<Rightarrow> string list \<Rightarrow> py_error + locals" where
  "loop st [] = Inr st"
| "loop st (word # words) =
     (case body st word of Inl e \<Rightarrow> Inl e | Inr st' \<Rightarrow> loop st' words)"

definition extract_amount :: "string \<Rightarrow> py_error + int option" where
  "extract_amount text =
     (let digits = findall_digits text in
      if digits \<noteq> [] then
        (case first digits of
           Inl e \<Rightarrow> Inl e
         | Inr d \<Rightarrow> (case py_int d of Inl e \<Rightarrow> Inl e | Inr n \<Rightarrow> Inr (Some n)))
      else
        (case loop \<lparr>total = 0, current = 0\<rparr> (py_split (lower text)) of
           Inl e \<Rightarrow> Inl e
         | Inr st \<Rightarrow>
             (let total = total st + current st
              in Inr (if total > 0 then Some total else None))))"

subsection \<open>What the specification says\<close>

text \<open>The integer value of a run of decimal digits, most significant digit first.\<close>

definition decimal_value :: "string \<Rightarrow> int" where
  "decimal_value ds = (\<Sum>i<length ds. digit_val (ds ! i) * 10 ^ (length ds - Suc i))"

text \<open>The accumulator of the word path, on the table values of the recognised tokens:
  a value 100 multiplies a nonzero \<open>current\<close> by 100 and turns a zero one into 100;
  a value 1000 multiplies \<open>current\<close> (1 when zero) by 1000, adds it to \<open>total\<close> and
  resets \<open>current\<close>; any other value is added to \<open>current\<close>; at the end \<open>current\<close>
  is added to \<open>total\<close>.\<close>

fun accumulate :: "int \<times> int \<Rightarrow> int list \<Rightarrow> int" where
  "accumulate (tot, cur) [] = tot + cur"
| "accumulate (tot, cur) (v # vs) =
     (if v = 100 then accumulate (tot, if cur \<noteq> 0 then cur * 100 else 100) vs
      else if v = 1000 then accumulate (tot + (if cur \<noteq> 0 then cur else 1) * 1000, 0) vs
      else accumulate (tot, cur + v) vs)"

text \<open>The result: the total when positive, no amount otherwise.\<close>

definition found :: "int \<Rightarrow> int option" where
  "found t = (if t > 0 then Some t else None)"

text \<open>The values of the tokens that are in the table; the others are dropped.\<close>

definition table_values :: "string list \<Rightarrow> int list" where
  "table_values ws = List.map_filter words_to_numbers ws"

text \<open>A text as tokens and separators: leading whitespace, then each token followed by
  its separator. A token is nonempty and free of whitespace; a separator is whitespace,
  nonempty unless it ends the text.\<close>

definition join :: "string \<Rightarrow> (string \<times> string) list \<Rightarrow> string" where
  "join lead ps = lead @ concat (map (\<lambda>(t, s). t @ s) ps)"

fun delimited :: "(string \<times> string) list \<Rightarrow> bool" where
  "delimited [] = True"
| "delimited ((t, s) # ps) =
     (t \<noteq> [] \<and> list_all (\<lambda>c. \<not> is_space c) t \<and> list_all is_space s
      \<and> (s = [] \<longrightarrow> ps = []) \<and> delimited ps)"

text \<open>Stripping as worded in the specification (everything that is neither alphanumeric
  nor whitespace goes) and as the character class \<open>[^\w\s]\<close> has it (the underscore
  stays as well).\<close>

definition strip_non_alnum :: "string \<Rightarrow> string" where
  "strip_non_alnum w = filter (\<lambda>c. is_alnum c \<or> is_space c) w"

definition strip_non_word :: "string \<Rightarrow> string" where
  "strip_non_word w = filter (\<lambda>c. is_word c \<or> is_space c) w"

text \<open>The word path from a list of tokens, for a given way of stripping.\<close>

definition spec_word_path :: "(string \<Rightarrow> string) \<Rightarrow> string list \<Rightarrow> int option" where
  "spec_word_path strip ts =
     found (accumulate (0, 0) (table_values (map (\<lambda>t. strip (lower t)) ts)))"

section \<open>Properties of the library calls\<close>

subsection \<open>Characters\<close>

lemma is_decimal_not_space: "is_decimal c \<Longrightarrow> \<not> is_space c"
  by (auto simp: is_decimal_def is_space_def)

lemma is_decimal_not_sign:
  "is_decimal c \<Longrightarrow> c \<noteq> CHR ''-'' \<and> c \<noteq> CHR ''+'' \<and> c \<noteq> CHR ''_''"
  by (auto simp: is_decimal_def cp_def)

lemma is_space_lower_char [simp]: "is_space (lower_char c) = is_space c"
  by (auto simp: is_space_def lower_char_def cp_def)

lemma is_decimal_lower_char [simp]: "is_decimal (lower_char c) = is_decimal c"
  by (auto simp: is_decimal_def lower_char_def cp_def)

lemma lower_char_decimal: "is_decimal c \<Longrightarrow> lower_char c = c"
  by (auto simp: is_decimal_def lower_char_def cp_def)

lemma lower_char_idem [simp]: "lower_char (lower_char c) = lower_char c"
  by (auto simp: lower_char_def cp_def)

lemma lower_idem: "lower (lower s) = lower s"
  by (simp add: lower_def)

lemma digit_val_nonneg: "is_decimal c \<Longrightarrow> 0 \<le> digit_val c"
  by (simp add: is_decimal_def digit_val_def)

subsection \<open>Digit runs\<close>

lemma findall_skip:
  "\<forall>c\<in>set pre. \<not> is_decimal c \<Longrightarrow> findall_digits (pre @ r) = findall_digits r"
  by (induction pre) auto

lemma findall_empty_iff: "findall_digits s = [] \<longleftrightarrow> (\<forall>c\<in>set s. \<not> is_decimal c)"
  by (induction s) auto

lemma findall_run:
  assumes "run \<noteq> []" "\<forall>c\<in>set run. is_decimal c" "post = [] \<or> \<not> is_decimal (hd post)"
  shows "findall_digits (run @ post) = run # findall_digits post"
proof -
  obtain c r where run: "run = c # r" using assms(1) by (cases run) auto
  have r: "\<forall>x\<in>set r. is_decimal x" and c: "is_decimal c" using assms(2) run by auto
  have tw: "takeWhile is_decimal (r @ post) = r"
  proof (cases post)
    case Nil then show ?thesis using r by (simp add: takeWhile_eq_all_conv)
  next
    case (Cons p ps)
    then have "\<not> is_decimal p" using assms(3) by simp
    then show ?thesis using r Cons by (simp add: takeWhile_append2 takeWhile_eq_all_conv)
  qed
  have dw: "dropWhile is_decimal (r @ post) = post"
  proof (cases post)
    case Nil then show ?thesis using r by simp
  next
    case (Cons p ps)
    then have "\<not> is_decimal p" using assms(3) by simp
    then show ?thesis using r Cons by (simp add: dropWhile_append2)
  qed
  have "findall_digits (c # (r @ post)) = (c # r) # findall_digits post"
    using c tw dw by simp
  then show ?thesis using run by simp
qed

lemma findall_elems:
  "d \<in> set (findall_digits s) \<Longrightarrow> d \<noteq> [] \<and> (\<forall>c\<in>set d. is_decimal c)"
proof (induction s rule: findall_digits.induct)
  case 1
  then show ?case by simp
next
  case (2 c cs)
  show ?case
  proof (cases "is_decimal c")
    case True
    with 2(3) have "d = c # takeWhile is_decimal cs \<or> d \<in> set (findall_digits (dropWhile is_decimal cs))"
      by simp
    then show ?thesis
    proof
      assume "d = c # takeWhile is_decimal cs"
      then show ?thesis using True by (auto dest: set_takeWhileD)
    next
      assume "d \<in> set (findall_digits (dropWhile is_decimal cs))"
      then show ?thesis using 2(1) True by blast
    qed
  next
    case False
    with 2(3) have "d \<in> set (findall_digits cs)" by simp
    then show ?thesis using 2(2) False by blast
  qed
qed

lemma takeWhile_lower: "takeWhile is_decimal (map lower_char cs) = takeWhile is_decimal cs"
  by (induction cs) (simp_all add: lower_char_decimal)

lemma dropWhile_lower:
  "dropWhile is_decimal (map lower_char cs) = map lower_char (dropWhile is_decimal cs)"
  by (induction cs) simp_all

lemma findall_map_lower: "findall_digits (map lower_char s) = findall_digits s"
proof (induction s rule: findall_digits.induct)
  case 1
  show ?case by simp
next
  case (2 c cs)
  show ?case
  proof (cases "is_decimal c")
    case True
    then show ?thesis using 2(1) by (simp add: takeWhile_lower dropWhile_lower lower_char_decimal)
  next
    case False
    then show ?thesis using 2(2) by simp
  qed
qed

lemma findall_lower: "findall_digits (lower s) = findall_digits s"
  by (simp add: lower_def findall_map_lower)

subsection \<open>Integer conversion\<close>

lemma parse_digits_snoc: "parse_digits (s @ [c]) = 10 * parse_digits s + digit_val c"
  by (simp add: parse_digits_def)

lemma decimal_value_snoc: "decimal_value (s @ [c]) = 10 * decimal_value s + digit_val c"
proof -
  have "(\<Sum>i<length s. digit_val ((s @ [c]) ! i) * 10 ^ (length s - i))
        = (\<Sum>i<length s. 10 * (digit_val (s ! i) * 10 ^ (length s - Suc i)))"
  proof (rule sum.cong)
    fix i assume "i \<in> {..<length s}"
    then have i: "i < length s" by simp
    then have "length s - i = Suc (length s - Suc i)" by simp
    then show "digit_val ((s @ [c]) ! i) * 10 ^ (length s - i)
               = 10 * (digit_val (s ! i) * 10 ^ (length s - Suc i))"
      using i by (simp add: nth_append)
  qed simp
  then show ?thesis
    by (simp add: decimal_value_def sum_distrib_left)
qed

lemma parse_digits_value: "parse_digits s = decimal_value s"
proof (induction s rule: rev_induct)
  case Nil
  show ?case by (simp add: parse_digits_def decimal_value_def)
next
  case (snoc c s)
  then show ?case by (simp add: parse_digits_snoc decimal_value_snoc)
qed

lemma parse_digits_nonneg: "\<forall>c\<in>set s. is_decimal c \<Longrightarrow> 0 \<le> parse_digits s"
proof (induction s rule: rev_induct)
  case Nil
  show ?case by (simp add: parse_digits_def)
next
  case (snoc c s)
  then show ?case using digit_val_nonneg [of c] by (simp add: parse_digits_snoc)
qed

lemma digits_ok_run: "s \<noteq> [] \<Longrightarrow> \<forall>c\<in>set s. is_decimal c \<Longrightarrow> digits_ok s"
proof (induction s rule: digits_ok.induct)
  case 1
  then show ?case by simp
next
  case (2 c)
  then show ?case by simp
next
  case (3 c d cs)
  then have "d \<noteq> CHR ''_''" using is_decimal_not_sign [of d] by simp
  then show ?case using 3 by simp
qed

lemma py_strip_run:
  assumes "s \<noteq> []" "\<forall>c\<in>set s. is_decimal c"
  shows "py_strip s = s"
proof -
  have h: "\<not> is_space (hd s)" using assms by (cases s) (auto dest: is_decimal_not_space)
  have l: "\<not> is_space (hd (rev s))"
    using assms by (simp add: hd_rev is_decimal_not_space)
  have 1: "dropWhile is_space s = s" using h assms(1) by (cases s) auto
  have 2: "dropWhile is_space (rev s) = rev s" using l assms(1) by (cases "rev s") auto
  show ?thesis by (simp add: py_strip_def 1 2)
qed

lemma py_int_digits:
  assumes "s \<noteq> []" "\<forall>c\<in>set s. is_decimal c"
  shows "py_int s = (if max_str_digits < length s then Inl ValueError else Inr (parse_digits s))"
proof -
  have hd: "is_decimal (hd s)" using assms by (cases s) auto
  then have sign: "hd s \<noteq> CHR ''-''" "hd s \<noteq> CHR ''+''"
    using is_decimal_not_sign [of "hd s"] by simp_all
  have f: "filter is_decimal s = s" using assms(2) by (simp add: filter_id_conv)
  show ?thesis
    using assms sign f by (simp add: py_int_def py_strip_run digits_ok_run Let_def)
qed

lemma py_int_run:
  assumes "s \<noteq> []" "\<forall>c\<in>set s. is_decimal c" "length s \<le> max_str_digits"
  shows "py_int s = Inr (parse_digits s)"
  using py_int_digits [OF assms(1,2)] assms(3) by simp

lemma py_int_long:
  assumes "\<forall>c\<in>set s. is_decimal c" "max_str_digits < length s"
  shows "py_int s = Inl ValueError"
proof -
  have "s \<noteq> []" using assms(2) by auto
  then show ?thesis using py_int_digits [OF _ assms(1)] assms(2) by simp
qed

subsection \<open>Splitting at whitespace\<close>

lemma split_spaces: "\<forall>c\<in>set sp. is_space c \<Longrightarrow> py_split (sp @ r) = py_split r"
  by (induction sp) simp_all

lemma split_token:
  assumes "t \<noteq> []" "\<forall>c\<in>set t. \<not> is_space c" "r = [] \<or> is_space (hd r)"
  shows "py_split (t @ r) = t # py_split r"
proof -
  obtain c t' where t: "t = c # t'" using assms(1) by (cases t) auto
  have c: "\<not> is_space c" and t': "\<forall>x\<in>set t'. \<not> is_space x" using assms(2) t by auto
  have tw: "takeWhile (\<lambda>x. \<not> is_space x) (t' @ r) = t'"
  proof (cases r)
    case Nil then show ?thesis using t' by (simp add: takeWhile_eq_all_conv)
  next
    case (Cons p ps)
    then have "is_space p" using assms(3) by simp
    then show ?thesis using t' Cons by (simp add: takeWhile_append2)
  qed
  have dw: "dropWhile (\<lambda>x. \<not> is_space x) (t' @ r) = r"
  proof (cases r)
    case Nil then show ?thesis using t' by simp
  next
    case (Cons p ps)
    then have "is_space p" using assms(3) by simp
    then show ?thesis using t' Cons by (simp add: dropWhile_append2)
  qed
  have "py_split (c # (t' @ r)) = (c # t') # py_split r"
    using c tw dw by simp
  then show ?thesis using t by simp
qed

lemma split_elems:
  "t \<in> set (py_split s) \<Longrightarrow> t \<noteq> [] \<and> (\<forall>c\<in>set t. \<not> is_space c)"
proof (induction s rule: py_split.induct)
  case 1
  then show ?case by simp
next
  case (2 c cs)
  show ?case
  proof (cases "is_space c")
    case True
    with 2(3) have "t \<in> set (py_split cs)" by simp
    then show ?thesis using 2(1) True by blast
  next
    case False
    with 2(3) have "t = c # takeWhile (\<lambda>x. \<not> is_space x) cs
        \<or> t \<in> set (py_split (dropWhile (\<lambda>x. \<not> is_space x) cs))"
      by simp
    then show ?thesis
    proof
      assume "t = c # takeWhile (\<lambda>x. \<not> is_space x) cs"
      then show ?thesis using False by (auto dest: set_takeWhileD)
    next
      assume "t \<in> set (py_split (dropWhile (\<lambda>x. \<not> is_space x) cs))"
      then show ?thesis using 2(2) False by blast
    qed
  qed
qed

lemma split_append:
  "a = [] \<or> b = [] \<or> is_space (last a) \<or> is_space (hd b) \<Longrightarrow>
   py_split (a @ b) = py_split a @ py_split b"
proof (induction a rule: py_split.induct)
  case 1
  show ?case by simp
next
  case (2 c cs)
  show ?case
  proof (cases "is_space c")
    case True
    have "cs = [] \<or> b = [] \<or> is_space (last cs) \<or> is_space (hd b)"
      using 2(3) by (cases "cs = []") auto
    then have "py_split (cs @ b) = py_split cs @ py_split b" using 2(1) True by blast
    then show ?thesis using True by simp
  next
    case False
    let ?ns = "\<lambda>x. \<not> is_space x"
    show ?thesis
    proof (cases "\<forall>x\<in>set cs. \<not> is_space x")
      case True
      then have all: "\<forall>x\<in>set (c # cs). \<not> is_space x" using False by simp
      then have nl: "\<not> is_space (last (c # cs))" by (metis last_in_set list.distinct(1))
      then have b: "b = [] \<or> is_space (hd b)" using 2(3) by auto
      have 1: "py_split ((c # cs) @ b) = (c # cs) # py_split b"
        using all b by (intro split_token) auto
      have "py_split ((c # cs) @ []) = (c # cs) # py_split []"
        using all by (intro split_token) auto
      then have 2: "py_split (c # cs) = [c # cs]" by simp
      show ?thesis using 1 2 by simp
    next
      case F2: False
      then have ne: "dropWhile ?ns cs \<noteq> []" by (auto simp: dropWhile_eq_Nil_conv)
      have tw: "takeWhile ?ns (cs @ b) = takeWhile ?ns cs"
        using F2 by (auto simp: takeWhile_append1)
      have dw: "dropWhile ?ns (cs @ b) = dropWhile ?ns cs @ b"
        using F2 by (auto simp: dropWhile_append1)
      have "last (dropWhile ?ns cs) = last (c # cs)"
        using ne by (metis append_Cons last_appendR takeWhile_dropWhile_id)
      then have "dropWhile ?ns cs = [] \<or> b = [] \<or> is_space (last (dropWhile ?ns cs)) \<or> is_space (hd b)"
        using 2(3) by auto
      then have "py_split (dropWhile ?ns cs @ b) = py_split (dropWhile ?ns cs) @ py_split b"
        using 2(2) False by blast
      then show ?thesis using False tw dw by simp
    qed
  qed
qed

lemma takeWhile_ns_lower:
  "takeWhile (\<lambda>x. \<not> is_space x) (map lower_char cs) = map lower_char (takeWhile (\<lambda>x. \<not> is_space x) cs)"
  by (induction cs) simp_all

lemma dropWhile_ns_lower:
  "dropWhile (\<lambda>x. \<not> is_space x) (map lower_char cs) = map lower_char (dropWhile (\<lambda>x. \<not> is_space x) cs)"
  by (induction cs) simp_all

lemma split_lower: "py_split (lower s) = map lower (py_split s)"
proof (induction s rule: py_split.induct)
  case 1
  show ?case by (simp add: lower_def)
next
  case (2 c cs)
  show ?case
  proof (cases "is_space c")
    case True
    then show ?thesis using 2(1) by (simp add: lower_def)
  next
    case False
    then show ?thesis using 2(2) by (simp add: lower_def takeWhile_ns_lower dropWhile_ns_lower)
  qed
qed

subsection \<open>The loop\<close>

lemma getitem_Some: "m k = Some v \<Longrightarrow> getitem m k = Inr v"
  by (simp add: getitem_def)

lemma body_unknown: "words_to_numbers (re_sub_punct w) = None \<Longrightarrow> body st w = Inr st"
  by (simp add: body_def)

lemma body_known:
  assumes "words_to_numbers (re_sub_punct w) = Some v"
  shows "body st w = Inr
     (if v = 100 then st\<lparr>current := (if current st \<noteq> 0 then current st * 100 else 100)\<rparr>
      else if v = 1000 then st\<lparr>total := total st + (if current st \<noteq> 0 then current st else 1) * 1000, current := 0\<rparr>
      else st\<lparr>current := current st + v\<rparr>)"
  using assms by (simp add: body_def getitem_Some Let_def)

lemma body_total: "\<exists>st'. body st w = Inr st'"
proof (cases "words_to_numbers (re_sub_punct w)")
  case None
  then show ?thesis by (simp add: body_unknown)
next
  case (Some v)
  then show ?thesis by (simp add: body_known)
qed

lemma loop_total: "\<exists>st'. loop st ws = Inr st'"
proof (induction ws arbitrary: st)
  case Nil
  show ?case by simp
next
  case (Cons w ws)
  obtain st1 where "body st w = Inr st1" using body_total by blast
  then show ?case using Cons [of st1] by simp
qed

lemma loop_append:
  "loop st (xs @ ys) = (case loop st xs of Inl e \<Rightarrow> Inl e | Inr st' \<Rightarrow> loop st' ys)"
proof (induction xs arbitrary: st)
  case Nil
  show ?case by simp
next
  case (Cons x xs)
  then show ?case by (cases "body st x") simp_all
qed

lemma loop_accumulate:
  "loop st ws = Inr st' \<Longrightarrow>
   total st' + current st' = accumulate (total st, current st) (table_values (map re_sub_punct ws))"
proof (induction ws arbitrary: st)
  case Nil
  then show ?case by (simp add: table_values_def map_filter_simps)
next
  case (Cons w ws)
  show ?case
  proof (cases "words_to_numbers (re_sub_punct w)")
    case None
    then have "loop st ws = Inr st'" using Cons.prems by (simp add: body_unknown)
    then show ?thesis using Cons.IH None by (simp add: table_values_def map_filter_simps)
  next
    case (Some v)
    let ?st1 = "(if v = 100 then st\<lparr>current := (if current st \<noteq> 0 then current st * 100 else 100)\<rparr>
      else if v = 1000 then st\<lparr>total := total st + (if current st \<noteq> 0 then current st else 1) * 1000, current := 0\<rparr>
      else st\<lparr>current := current st + v\<rparr>)"
    have b: "body st w = Inr ?st1" using Some by (rule body_known)
    then have "loop ?st1 ws = Inr st'" using Cons.prems by simp
    then have "total st' + current st' =
       accumulate (total ?st1, current ?st1) (table_values (map re_sub_punct ws))"
      by (rule Cons.IH)
    then show ?thesis using Some by (simp add: table_values_def map_filter_simps)
  qed
qed

section \<open>Properties of \<open>extract_amount\<close>\<close>

subsection \<open>The digit path\<close>

lemma first_findall_run:
  assumes "\<forall>c\<in>set pre. \<not> is_decimal c" "run \<noteq> []" "\<forall>c\<in>set run. is_decimal c"
    "post = [] \<or> \<not> is_decimal (hd post)" "length run \<le> max_str_digits"
  shows "extract_amount (pre @ run @ post) = Inr (Some (decimal_value run))"
proof -
  have "findall_digits (pre @ run @ post) = run # findall_digits post"
    using assms(1-4) by (simp add: findall_skip findall_run)
  then show ?thesis
    using assms(2,3,5)
    by (simp add: extract_amount_def first_def py_int_run parse_digits_value)
qed

lemma first_findall_long:
  assumes "\<forall>c\<in>set pre. \<not> is_decimal c" "\<forall>c\<in>set run. is_decimal c"
    "post = [] \<or> \<not> is_decimal (hd post)" "max_str_digits < length run"
  shows "extract_amount (pre @ run @ post) = Inl ValueError"
proof -
  have ne: "run \<noteq> []" using assms(4) by auto
  have "findall_digits (pre @ run @ post) = run # findall_digits post"
    using assms(1-3) ne by (simp add: findall_skip findall_run)
  then show ?thesis
    using assms(2,4)
    by (simp add: extract_amount_def first_def py_int_long)
qed





subsection \<open>The word path\<close>

lemma word_path_loop:
  assumes "\<forall>c\<in>set text. \<not> is_decimal c"
  shows "\<exists>st. loop \<lparr>total = 0, current = 0\<rparr> (py_split (lower text)) = Inr st
           \<and> extract_amount text = Inr (found (total st + current st))"
proof -
  obtain st where st: "loop \<lparr>total = 0, current = 0\<rparr> (py_split (lower text)) = Inr st"
    using loop_total by blast
  have "findall_digits text = []" using assms by (simp add: findall_empty_iff)
  then have "extract_amount text = Inr (found (total st + current st))"
    using st by (simp add: extract_amount_def found_def Let_def)
  then show ?thesis using st by blast
qed

lemma word_path_accumulate:
  assumes "\<forall>c\<in>set text. \<not> is_decimal c"
  shows "extract_amount text =
     Inr (found (accumulate (0, 0) (table_values (map re_sub_punct (py_split (lower text))))))"
proof -
  obtain st where st: "loop \<lparr>total = 0, current = 0\<rparr> (py_split (lower text)) = Inr st"
    and r: "extract_amount text = Inr (found (total st + current st))"
    using word_path_loop [OF assms] by blast
  have "total st + current st =
      accumulate (0, 0) (table_values (map re_sub_punct (py_split (lower text))))"
    using loop_accumulate [OF st] by simp
  then show ?thesis using r by simp
qed

text \<open>
  C2: on a text without digits, \<open>extract_amount\<close> computes the accumulator of the
  specification on the table values of the stripped tokens of the lowercased text, and
  returns its total when positive. The seven examples of the specification evaluate as
  it says.
\<close>

theorem extract_amount_word_accumulator:
  "((\<forall>c\<in>set text. \<not> is_decimal c) \<longrightarrow>
      extract_amount text =
        Inr (found (accumulate (0, 0) (table_values (map re_sub_punct (py_split (lower text)))))))
   \<and> extract_amount ''five'' = Inr (Some 5)
   \<and> extract_amount ''twenty three'' = Inr (Some 23)
   \<and> extract_amount ''one hundred'' = Inr (Some 100)
   \<and> extract_amount ''two thousand'' = Inr (Some 2000)
   \<and> extract_amount ''one thousand two hundred fifty'' = Inr (Some 1250)
   \<and> extract_amount ''hundred'' = Inr (Some 100)
   \<and> extract_amount ''thousand'' = Inr (Some 1000)"
proof -
  have 1: "extract_amount ''five'' = Inr (Some 5)" by code_simp
  have 2: "extract_amount ''twenty three'' = Inr (Some 23)" by code_simp
  have 3: "extract_amount ''one hundred'' = Inr (Some 100)" by code_simp
  have 4: "extract_amount ''two thousand'' = Inr (Some 2000)" by code_simp
  have 5: "extract_amount ''one thousand two hundred fifty'' = Inr (Some 1250)" by code_simp
  have 6: "extract_amount ''hundred'' = Inr (Some 100)" by code_simp
  have 7: "extract_amount ''thousand'' = Inr (Some 1000)" by code_simp
  show ?thesis using word_path_accumulate 1 2 3 4 5 6 7 by blast
qed

theorem extract_amount_word_accumulator_witness:
  "list_all (\<lambda>c. \<not> is_decimal c) ''three hundred and five thousand twelve''
   \<and> table_values (map re_sub_punct (py_split (lower ''three hundred and five thousand twelve'')))
       = [3, 100, 5, 1000, 12]
   \<and> accumulate (0, 0) [3, 100, 5, 1000, 12] = 305012
   \<and> extract_amount ''three hundred and five thousand twelve'' = Inr (Some 305012)"
proof -
  have h: "\<forall>c\<in>set ''three hundred and five thousand twelve''. \<not> is_decimal c"
    by (simp add: is_decimal_def cp_def)
  have v: "table_values (map re_sub_punct (py_split (lower ''three hundred and five thousand twelve'')))
       = [3, 100, 5, 1000, 12]" by code_simp
  have a: "accumulate (0, 0) [3, 100, 5, 1000, 12] = 305012" by simp
  have "extract_amount ''three hundred and five thousand twelve'' =
        Inr (found (accumulate (0, 0) (table_values (map re_sub_punct
           (py_split (lower ''three hundred and five thousand twelve''))))))"
    using extract_amount_word_accumulator [of "''three hundred and five thousand twelve''"] h
    by blast
  then have "extract_amount ''three hundred and five thousand twelve'' = Inr (Some 305012)"
    by (simp only: v a found_def) simp
  then show ?thesis using h v a by (simp add: list_all_iff)
qed

lemma loop_only_zero:
  assumes "\<forall>w\<in>set ws. words_to_numbers (re_sub_punct w) \<noteq> None \<longrightarrow> re_sub_punct w = ''zero''"
  shows "loop \<lparr>total = 0, current = 0\<rparr> ws = Inr \<lparr>total = 0, current = 0\<rparr>"
  using assms
proof (induction ws)
  case Nil
  show ?case by simp
next
  case (Cons w ws)
  have z: "words_to_numbers ''zero'' = Some 0" by (simp add: words_to_numbers_def)
  have "body \<lparr>total = 0, current = 0\<rparr> w = Inr \<lparr>total = 0, current = 0\<rparr>"
  proof (cases "words_to_numbers (re_sub_punct w)")
    case None
    then show ?thesis by (simp add: body_unknown)
  next
    case (Some v)
    then have "re_sub_punct w = ''zero''" using Cons.prems by simp
    then have "words_to_numbers (re_sub_punct w) = Some 0" using z by simp
    then show ?thesis by (simp add: body_known)
  qed
  then show ?case using Cons by simp
qed

text \<open>
  C3: on a text without digits the loop ends in some state, and \<open>extract_amount\<close>
  returns \<open>total + current\<close> of that state when it is positive and no amount
  otherwise. The empty text and \<open>hello world\<close> give no amount; so does every text
  without digits whose only token in the table is \<open>zero\<close>.
\<close>

theorem extract_amount_positive_or_none:
  "((\<forall>c\<in>set text. \<not> is_decimal c) \<longrightarrow>
      (\<exists>st. loop \<lparr>total = 0, current = 0\<rparr> (py_split (lower text)) = Inr st
         \<and> (0 < total st + current st \<longrightarrow> extract_amount text = Inr (Some (total st + current st)))
         \<and> (total st + current st \<le> 0 \<longrightarrow> extract_amount text = Inr None)))
   \<and> ((\<forall>c\<in>set text. \<not> is_decimal c)
        \<and> (\<forall>w\<in>set (py_split (lower text)).
              words_to_numbers (re_sub_punct w) \<noteq> None \<longrightarrow> re_sub_punct w = ''zero'')
       \<longrightarrow> extract_amount text = Inr None)
   \<and> extract_amount '''' = Inr None
   \<and> extract_amount ''hello world'' = Inr None
   \<and> extract_amount ''zero'' = Inr None"
proof -
  have a: "(\<forall>c\<in>set text. \<not> is_decimal c) \<longrightarrow>
      (\<exists>st. loop \<lparr>total = 0, current = 0\<rparr> (py_split (lower text)) = Inr st
         \<and> (0 < total st + current st \<longrightarrow> extract_amount text = Inr (Some (total st + current st)))
         \<and> (total st + current st \<le> 0 \<longrightarrow> extract_amount text = Inr None))"
  proof
    assume h: "\<forall>c\<in>set text. \<not> is_decimal c"
    obtain st where st: "loop \<lparr>total = 0, current = 0\<rparr> (py_split (lower text)) = Inr st"
      and r: "extract_amount text = Inr (found (total st + current st))"
      using word_path_loop [OF h] by blast
    have "(0 < total st + current st \<longrightarrow> extract_amount text = Inr (Some (total st + current st)))
         \<and> (total st + current st \<le> 0 \<longrightarrow> extract_amount text = Inr None)"
      using r by (simp add: found_def)
    then show "\<exists>st. loop \<lparr>total = 0, current = 0\<rparr> (py_split (lower text)) = Inr st
         \<and> (0 < total st + current st \<longrightarrow> extract_amount text = Inr (Some (total st + current st)))
         \<and> (total st + current st \<le> 0 \<longrightarrow> extract_amount text = Inr None)"
      using st by blast
  qed
  have b: "(\<forall>c\<in>set text. \<not> is_decimal c)
        \<and> (\<forall>w\<in>set (py_split (lower text)).
              words_to_numbers (re_sub_punct w) \<noteq> None \<longrightarrow> re_sub_punct w = ''zero'')
       \<longrightarrow> extract_amount text = Inr None"
  proof
    assume h: "(\<forall>c\<in>set text. \<not> is_decimal c)
        \<and> (\<forall>w\<in>set (py_split (lower text)).
              words_to_numbers (re_sub_punct w) \<noteq> None \<longrightarrow> re_sub_punct w = ''zero'')"
    then have l: "loop \<lparr>total = 0, current = 0\<rparr> (py_split (lower text)) = Inr \<lparr>total = 0, current = 0\<rparr>"
      by (intro loop_only_zero) blast
    have "findall_digits text = []" using h by (simp add: findall_empty_iff)
    then show "extract_amount text = Inr None"
      using l by (simp add: extract_amount_def)
  qed
  have c: "extract_amount '''' = Inr None" by code_simp
  have d: "extract_amount ''hello world'' = Inr None" by code_simp
  have e: "extract_amount ''zero'' = Inr None" by code_simp
  show ?thesis using a b c d e by blast
qed

theorem extract_amount_positive_or_none_witness:
  "list_all (\<lambda>c. \<not> is_decimal c) ''Zero, zero rupees''
   \<and> map re_sub_punct (py_split (lower ''Zero, zero rupees'')) = [''zero'', ''zero'', ''rupees'']
   \<and> words_to_numbers ''rupees'' = None
   \<and> extract_amount ''Zero, zero rupees'' = Inr None"
proof -
  have h: "\<forall>c\<in>set ''Zero, zero rupees''. \<not> is_decimal c"
    by (simp add: is_decimal_def cp_def)
  have s: "py_split (lower ''Zero, zero rupees'') = [''zero,'', ''zero'', ''rupees'']"
    by code_simp
  have r1: "re_sub_punct ''zero,'' = ''zero''" by code_simp
  have r2: "re_sub_punct ''zero'' = ''zero''" by code_simp
  have r3: "re_sub_punct ''rupees'' = ''rupees''" by code_simp
  have m: "map re_sub_punct (py_split (lower ''Zero, zero rupees'')) = [''zero'', ''zero'', ''rupees'']"
    unfolding s using r1 r2 r3 by simp
  have n: "words_to_numbers ''rupees'' = None" by (simp add: words_to_numbers_def)
  have z: "\<forall>w\<in>set (py_split (lower ''Zero, zero rupees'')).
              words_to_numbers (re_sub_punct w) \<noteq> None \<longrightarrow> re_sub_punct w = ''zero''"
    unfolding s using r1 r2 r3 n by simp
  have "extract_amount ''Zero, zero rupees'' = Inr None"
    using extract_amount_positive_or_none [of "''Zero, zero rupees''"] h z by blast
  then show ?thesis using h m n by (simp add: list_all_iff)
qed

subsection \<open>Tokens and stripping\<close>

lemma re_sub_punct_filter: "re_sub_punct w = strip_non_word w"
  by (induction w) (simp_all add: strip_non_word_def)

lemma split_join:
  "\<forall>c\<in>set lead. is_space c \<Longrightarrow> delimited ps \<Longrightarrow> py_split (join lead ps) = map fst ps"
proof (induction ps arbitrary: lead)
  case Nil
  have "py_split (lead @ []) = py_split []" using Nil(1) by (rule split_spaces)
  then show ?case by (simp add: join_def)
next
  case (Cons p ps)
  obtain t s where p: "p = (t, s)" by (cases p)
  have t: "t \<noteq> []" "\<forall>c\<in>set t. \<not> is_space c" and s: "\<forall>c\<in>set s. is_space c"
    and e: "s = [] \<longrightarrow> ps = []" and d: "delimited ps"
    using Cons.prems(2) p by (simp_all add: list_all_iff)
  let ?rest = "concat (map (\<lambda>(t, s). t @ s) ps)"
  have rest: "py_split (s @ ?rest) = map fst ps"
    using Cons.IH [OF s d] by (simp add: join_def)
  have b: "s @ ?rest = [] \<or> is_space (hd (s @ ?rest))"
  proof (cases s)
    case Nil
    then show ?thesis using e by simp
  next
    case (Cons x xs)
    then show ?thesis using s by simp
  qed
  have "py_split (t @ s @ ?rest) = t # py_split (s @ ?rest)"
    using t b by (rule split_token)
  then have "py_split (lead @ t @ s @ ?rest) = t # map fst ps"
    using split_spaces [OF Cons.prems(1)] rest by simp
  then show ?case using p by (simp add: join_def)
qed

lemma word_path_tokens:
  assumes "\<forall>c\<in>set lead. is_space c" "delimited ps"
    "\<forall>c\<in>set (join lead ps). \<not> is_decimal c"
  shows "extract_amount (join lead ps) = Inr (spec_word_path strip_non_word (map fst ps))"
proof -
  have "py_split (lower (join lead ps)) = map lower (map fst ps)"
    using split_join [OF assms(1,2)] by (simp add: split_lower)
  then have "map re_sub_punct (py_split (lower (join lead ps)))
      = map (\<lambda>t. strip_non_word (lower t)) (map fst ps)"
    by (simp add: re_sub_punct_filter comp_def)
  then show ?thesis
    using word_path_accumulate [OF assms(3)] by (simp add: spec_word_path_def)
qed

text \<open>
  C4: the splitting and the lookup are as the claim says, and \<open>twenty, three.\<close>
  gives 23, but the stripping misses the underscore. It is neither alphanumeric nor
  whitespace, and the class \<open>[^\w\s]\<close> does not contain it: \<open>five_\<close> is one
  token without digits; stripped as the claim says it is \<open>five\<close>, of value 5, while
  \<open>extract_amount\<close> looks up \<open>five_\<close> and finds no amount.
\<close>

theorem extract_amount_keeps_underscore:
  "delimited [(''five_'', [])] \<and> join [] [(''five_'', [])] = ''five_''
   \<and> list_all (\<lambda>c. \<not> is_decimal c) ''five_''
   \<and> \<not> is_alnum CHR ''_'' \<and> \<not> is_space CHR ''_''
   \<and> re_sub_punct ''five_'' = ''five_''
   \<and> strip_non_alnum ''five_'' = ''five''
   \<and> spec_word_path strip_non_alnum [''five_''] = Some 5
   \<and> extract_amount ''five_'' = Inr None
   \<and> extract_amount ''five_'' \<noteq> Inr (spec_word_path strip_non_alnum [''five_''])"
proof -
  have d: "delimited [(''five_'', [])]" by (simp add: is_space_def cp_def)
  have j: "join [] [(''five_'', [])] = ''five_''" by (simp add: join_def)
  have n: "list_all (\<lambda>c. \<not> is_decimal c) ''five_''" by (simp add: is_decimal_def cp_def)
  have u: "\<not> is_alnum CHR ''_'' \<and> \<not> is_space CHR ''_''"
    by (simp add: is_alnum_def is_space_def cp_def)
  have r: "re_sub_punct ''five_'' = ''five_''" by code_simp
  have s: "strip_non_alnum ''five_'' = ''five''" by code_simp
  have v: "spec_word_path strip_non_alnum [''five_''] = Some 5" by code_simp
  have e: "extract_amount ''five_'' = Inr None" by code_simp
  show ?thesis using d j n u r s v e by simp
qed

subsection \<open>Tokens that are not in the table\<close>

lemma findall_append:
  "a = [] \<or> b = [] \<or> \<not> is_decimal (last a) \<or> \<not> is_decimal (hd b) \<Longrightarrow>
   findall_digits (a @ b) = findall_digits a @ findall_digits b"
proof (induction a rule: findall_digits.induct)
  case 1
  show ?case by simp
next
  case (2 c cs)
  show ?case
  proof (cases "is_decimal c")
    case False
    have "cs = [] \<or> b = [] \<or> \<not> is_decimal (last cs) \<or> \<not> is_decimal (hd b)"
      using 2(3) by (cases "cs = []") auto
    then have "findall_digits (cs @ b) = findall_digits cs @ findall_digits b"
      using 2(2) False by blast
    then show ?thesis using False by simp
  next
    case True
    show ?thesis
    proof (cases "\<forall>x\<in>set cs. is_decimal x")
      case all: True
      then have run: "\<forall>x\<in>set (c # cs). is_decimal x" using True by simp
      then have "is_decimal (last (c # cs))" by (metis last_in_set list.distinct(1))
      then have b: "b = [] \<or> \<not> is_decimal (hd b)" using 2(3) by auto
      have 1: "findall_digits ((c # cs) @ b) = (c # cs) # findall_digits b"
        using run b by (intro findall_run) auto
      have "findall_digits ((c # cs) @ []) = (c # cs) # findall_digits []"
        using run by (intro findall_run) auto
      then have 2: "findall_digits (c # cs) = [c # cs]" by simp
      show ?thesis using 1 2 by simp
    next
      case F2: False
      then have ne: "dropWhile is_decimal cs \<noteq> []" by (auto simp: dropWhile_eq_Nil_conv)
      have tw: "takeWhile is_decimal (cs @ b) = takeWhile is_decimal cs"
        using F2 by (auto simp: takeWhile_append1)
      have dw: "dropWhile is_decimal (cs @ b) = dropWhile is_decimal cs @ b"
        using F2 by (auto simp: dropWhile_append1)
      have "last (dropWhile is_decimal cs) = last (c # cs)"
        using ne by (metis append_Cons last_appendR takeWhile_dropWhile_id)
      then have "dropWhile is_decimal cs = [] \<or> b = []
          \<or> \<not> is_decimal (last (dropWhile is_decimal cs)) \<or> \<not> is_decimal (hd b)"
        using 2(3) by auto
      then have "findall_digits (dropWhile is_decimal cs @ b)
          = findall_digits (dropWhile is_decimal cs) @ findall_digits b"
        using 2(1) True by blast
      then show ?thesis using True tw dw by simp
    qed
  qed
qed

lemma insert_token_digits:
  assumes "tok \<noteq> []" "\<forall>c\<in>set tok. \<not> is_decimal c"
    "\<forall>c\<in>set s1. is_space c" "\<forall>c\<in>set s2. is_space c"
    "a = [] \<or> b = [] \<or> is_space (last a) \<or> is_space (hd b)"
  shows "findall_digits (a @ s1 @ tok @ s2 @ b) = findall_digits (a @ b)"
proof -
  let ?m = "s1 @ tok @ s2"
  have m: "\<forall>c\<in>set ?m. \<not> is_decimal c"
    using assms(2,3,4) by (auto dest: is_decimal_not_space)
  have "?m \<noteq> []" using assms(1) by simp
  then have "hd (?m @ b) \<in> set ?m" by (metis hd_append2 hd_in_set)
  then have "\<not> is_decimal (hd (?m @ b))" using m by blast
  then have "findall_digits (a @ ?m @ b) = findall_digits a @ findall_digits (?m @ b)"
    by (intro findall_append) blast
  also have "findall_digits (?m @ b) = findall_digits b" using m by (rule findall_skip)
  finally have 1: "findall_digits (a @ ?m @ b) = findall_digits a @ findall_digits b" .
  have "a = [] \<or> b = [] \<or> \<not> is_decimal (last a) \<or> \<not> is_decimal (hd b)"
    using assms(5) by (auto dest: is_decimal_not_space)
  then have "findall_digits (a @ b) = findall_digits a @ findall_digits b"
    by (rule findall_append)
  then show ?thesis using 1 by simp
qed

lemma insert_token_split:
  assumes "tok \<noteq> []" "\<forall>c\<in>set tok. \<not> is_space c"
    "\<forall>c\<in>set s1. is_space c" "s1 \<noteq> [] \<or> a = [] \<or> is_space (last a)"
    "\<forall>c\<in>set s2. is_space c" "s2 \<noteq> [] \<or> b = [] \<or> is_space (hd b)"
  shows "py_split (a @ s1 @ tok @ s2 @ b) = py_split a @ tok # py_split b"
proof -
  have j1: "a = [] \<or> s1 @ tok @ s2 @ b = [] \<or> is_space (last a) \<or> is_space (hd (s1 @ tok @ s2 @ b))"
  proof (cases s1)
    case Nil
    then show ?thesis using assms(4) by auto
  next
    case (Cons x xs)
    then show ?thesis using assms(3) by simp
  qed
  have j3: "s2 @ b = [] \<or> is_space (hd (s2 @ b))"
  proof (cases s2)
    case Nil
    then show ?thesis using assms(6) by auto
  next
    case (Cons x xs)
    then show ?thesis using assms(5) by simp
  qed
  have "py_split (a @ s1 @ tok @ s2 @ b) = py_split a @ py_split (s1 @ tok @ s2 @ b)"
    using j1 by (rule split_append)
  also have "py_split (s1 @ tok @ s2 @ b) = py_split (tok @ s2 @ b)"
    using assms(3) by (rule split_spaces)
  also have "py_split (tok @ s2 @ b) = tok # py_split (s2 @ b)"
    using assms(1,2) j3 by (rule split_token)
  also have "py_split (s2 @ b) = py_split b"
    using assms(5) by (rule split_spaces)
  finally show ?thesis .
qed

lemma loop_skip_unknown:
  assumes "words_to_numbers (re_sub_punct w) = None"
  shows "loop st (xs @ w # ys) = loop st (xs @ ys)"
proof -
  obtain st1 where st1: "loop st xs = Inr st1" using loop_total by blast
  have "body st1 w = Inr st1" using assms by (rule body_unknown)
  then show ?thesis using st1 by (simp add: loop_append)
qed

lemma insert_token:
  assumes "tok \<noteq> []" "\<forall>c\<in>set tok. \<not> is_decimal c \<and> \<not> is_space c"
    "words_to_numbers (re_sub_punct (lower tok)) = None"
    "\<forall>c\<in>set s1. is_space c" "s1 \<noteq> [] \<or> a = [] \<or> is_space (last a)"
    "\<forall>c\<in>set s2. is_space c" "s2 \<noteq> [] \<or> b = [] \<or> is_space (hd b)"
    "a = [] \<or> b = [] \<or> is_space (last a) \<or> is_space (hd b)"
  shows "extract_amount (a @ s1 @ tok @ s2 @ b) = extract_amount (a @ b)"
proof -
  have d: "findall_digits (a @ s1 @ tok @ s2 @ b) = findall_digits (a @ b)"
    using assms(1,2,4,6,8) by (intro insert_token_digits) auto
  have "py_split (a @ s1 @ tok @ s2 @ b) = py_split a @ tok # py_split b"
    using assms(1,2,4,5,6,7) by (intro insert_token_split) auto
  then have s: "py_split (lower (a @ s1 @ tok @ s2 @ b))
      = map lower (py_split a) @ lower tok # map lower (py_split b)"
    by (simp add: split_lower)
  have "py_split (a @ b) = py_split a @ py_split b"
    using assms(8) by (rule split_append)
  then have s': "py_split (lower (a @ b)) = map lower (py_split a) @ map lower (py_split b)"
    by (simp add: split_lower)
  have l: "loop \<lparr>total = 0, current = 0\<rparr> (py_split (lower (a @ s1 @ tok @ s2 @ b)))
      = loop \<lparr>total = 0, current = 0\<rparr> (py_split (lower (a @ b)))"
    unfolding s s' using assms(3) by (rule loop_skip_unknown)
  show ?thesis unfolding extract_amount_def d l ..
qed

text \<open>
  C5: a token without digits whose lowercased, stripped form is not in the table can be
  inserted as a word of its own at any word boundary of a text without changing the
  result of \<open>extract_amount\<close>. The text is \<open>a @ b\<close>, cut at a boundary (an end of
  the text, or next to whitespace); the token goes between \<open>a\<close> and \<open>b\<close> with
  whitespace \<open>s1\<close> before and \<open>s2\<close> after it, which may be empty where the text has
  whitespace or ends.
\<close>

theorem extract_amount_ignores_unknown_token:
  "tok \<noteq> [] \<Longrightarrow> \<forall>c\<in>set tok. \<not> is_decimal c \<and> \<not> is_space c \<Longrightarrow>
   words_to_numbers (re_sub_punct (lower tok)) = None \<Longrightarrow>
   \<forall>c\<in>set s1. is_space c \<Longrightarrow> s1 \<noteq> [] \<or> a = [] \<or> is_space (last a) \<Longrightarrow>
   \<forall>c\<in>set s2. is_space c \<Longrightarrow> s2 \<noteq> [] \<or> b = [] \<or> is_space (hd b) \<Longrightarrow>
   a = [] \<or> b = [] \<or> is_space (last a) \<or> is_space (hd b) \<Longrightarrow>
   extract_amount (a @ s1 @ tok @ s2 @ b) = extract_amount (a @ b)"
  by (rule insert_token)

theorem extract_amount_ignores_unknown_token_witness:
  "''Dollars,'' \<noteq> [] \<and> list_all (\<lambda>c. \<not> is_decimal c \<and> \<not> is_space c) ''Dollars,''
   \<and> words_to_numbers (re_sub_punct (lower ''Dollars,'')) = None
   \<and> list_all is_space '' '' \<and> list_all is_space []
   \<and> is_space (hd '' and fifty'')
   \<and> extract_amount (''two hundred'' @ '' '' @ ''Dollars,'' @ [] @ '' and fifty'')
       = extract_amount (''two hundred'' @ '' and fifty'')
   \<and> extract_amount (''two hundred'' @ '' and fifty'') = Inr (Some 250)"
proof -
  have t: "\<forall>c\<in>set ''Dollars,''. \<not> is_decimal c \<and> \<not> is_space c"
    by (simp add: is_decimal_def is_space_def cp_def)
  have u: "words_to_numbers (re_sub_punct (lower ''Dollars,'')) = None" by code_simp
  have s1: "\<forall>c\<in>set '' ''. is_space c" by (simp add: is_space_def cp_def)
  have h: "is_space (hd '' and fifty'')" by (simp add: is_space_def cp_def)
  have v: "extract_amount (''two hundred'' @ '' and fifty'') = Inr (Some 250)" by code_simp
  have "extract_amount (''two hundred'' @ '' '' @ ''Dollars,'' @ [] @ '' and fifty'')
       = extract_amount (''two hundred'' @ '' and fifty'')"
    using t u s1 h
    by (intro extract_amount_ignores_unknown_token) simp_all
  then show ?thesis using t u s1 h v by (simp add: list_all_iff)
qed

subsection \<open>Errors, case, hyphens and zero\<close>

lemma digit_path_result:
  assumes "findall_digits text \<noteq> []"
  shows "if max_str_digits < length (hd (findall_digits text))
         then extract_amount text = Inl ValueError
         else (\<exists>n. 0 \<le> n \<and> extract_amount text = Inr (Some n))"
proof -
  obtain d ds where ds: "findall_digits text = d # ds"
    using assms by (cases "findall_digits text") auto
  then have "d \<in> set (findall_digits text)" by simp
  then have d: "d \<noteq> []" "\<forall>c\<in>set d. is_decimal c" using findall_elems by blast+
  show ?thesis
  proof (cases "max_str_digits < length d")
    case True
    then have "py_int d = Inl ValueError" using d(2) by (intro py_int_long)
    then have "extract_amount text = Inl ValueError"
      using ds by (simp add: extract_amount_def first_def)
    then show ?thesis using True ds by simp
  next
    case False
    then have "py_int d = Inr (parse_digits d)" using d by (intro py_int_run) simp_all
    then have "extract_amount text = Inr (Some (parse_digits d))"
      using ds by (simp add: extract_amount_def first_def)
    then have "\<exists>n. 0 \<le> n \<and> extract_amount text = Inr (Some n)"
      using parse_digits_nonneg [OF d(2)] by blast
    then show ?thesis using False ds by simp
  qed
qed

lemma word_path_result:
  assumes "findall_digits text = []"
  shows "extract_amount text = Inr None \<or> (\<exists>n. 1 \<le> n \<and> extract_amount text = Inr (Some n))"
proof -
  have h: "\<forall>c\<in>set text. \<not> is_decimal c" using assms by (simp add: findall_empty_iff)
  obtain st :: locals where r: "extract_amount text = Inr (found (total st + current st))"
    using word_path_loop [OF h] by blast
  show ?thesis
  proof (cases "0 < total st + current st")
    case True
    then have "1 \<le> total st + current st
        \<and> extract_amount text = Inr (Some (total st + current st))"
      using r by (simp add: found_def)
    then show ?thesis by blast
  next
    case False
    then have "extract_amount text = Inr None" using r by (simp add: found_def)
    then show ?thesis by simp
  qed
qed

text \<open>
  Within the limit of the conversion no error is ever the result: when the text has no
  digit, or its first run of digits has at most 4300 digits, \<open>extract_amount\<close>
  returns no amount or a non-negative integer.
\<close>

lemma extract_amount_within_limit:
  assumes "findall_digits text = [] \<or> length (hd (findall_digits text)) \<le> max_str_digits"
  shows "extract_amount text = Inr None \<or> (\<exists>n. 0 \<le> n \<and> extract_amount text = Inr (Some n))"
proof (cases "findall_digits text = []")
  case True
  then have "extract_amount text = Inr None \<or> (\<exists>n. 1 \<le> n \<and> extract_amount text = Inr (Some n))"
    by (rule word_path_result)
  then show ?thesis
  proof
    assume "extract_amount text = Inr None"
    then show ?thesis by simp
  next
    assume "\<exists>n. 1 \<le> n \<and> extract_amount text = Inr (Some n)"
    then obtain n where "1 \<le> n" "extract_amount text = Inr (Some n)" by blast
    then have "0 \<le> n \<and> extract_amount text = Inr (Some n)" by simp
    then show ?thesis by blast
  qed
next
  case False
  then have "\<not> max_str_digits < length (hd (findall_digits text))" using assms by simp
  then show ?thesis using digit_path_result [OF False] by simp
qed

text \<open>
  C6: \<open>extract_amount\<close> does raise. On the text that is a run of 4301 digits the
  conversion \<open>int(digits[0])\<close> is refused with \<open>ValueError\<close>, and nothing in
  \<open>extract_amount\<close> catches it.
\<close>

theorem extract_amount_raises_on_long_run:
  "extract_amount (replicate 4301 CHR ''9'') = Inl ValueError"
proof -
  have d: "\<forall>c\<in>set (replicate 4301 CHR ''9''). is_decimal c"
    by (simp add: is_decimal_def cp_def)
  have l: "max_str_digits < length (replicate 4301 CHR ''9'')"
    by (simp add: max_str_digits_def)
  have "extract_amount ([] @ replicate 4301 CHR ''9'' @ []) = Inl ValueError"
    using d l by (intro first_findall_long) simp_all
  then show ?thesis by simp
qed

text \<open>
  C7: \<open>extract_amount\<close> gives the same result on a text and on its lowercased form;
  \<open>TWENTY\<close> and \<open>twenty\<close> both give 20.
\<close>

theorem extract_amount_case_insensitive:
  "extract_amount (lower text) = extract_amount text
   \<and> extract_amount ''TWENTY'' = extract_amount ''twenty''
   \<and> extract_amount ''twenty'' = Inr (Some 20)"
proof -
  have a: "extract_amount (lower text) = extract_amount text"
    unfolding extract_amount_def findall_lower lower_idem ..
  have b: "extract_amount ''TWENTY'' = Inr (Some 20)" by code_simp
  have c: "extract_amount ''twenty'' = Inr (Some 20)" by code_simp
  show ?thesis using a b c by simp
qed

theorem extract_amount_case_insensitive_witness:
  "lower ''Two HUNDRED and 7 Cents'' = ''two hundred and 7 cents''
   \<and> extract_amount ''two hundred and 7 cents'' = extract_amount ''Two HUNDRED and 7 Cents''"
proof -
  have l: "lower ''Two HUNDRED and 7 Cents'' = ''two hundred and 7 cents''" by code_simp
  show ?thesis
    using extract_amount_case_insensitive [of "''Two HUNDRED and 7 Cents''"] l by simp
qed

text \<open>
  C9: \<open>twenty-three\<close> is one token; stripping deletes the hyphen and leaves
  \<open>twentythree\<close>, which the table does not have, so no amount is found.
\<close>

theorem extract_amount_hyphenated:
  "py_split (lower ''twenty-three'') = [''twenty-three'']
   \<and> re_sub_punct ''twenty-three'' = ''twentythree''
   \<and> words_to_numbers ''twentythree'' = None
   \<and> extract_amount ''twenty-three'' = Inr None"
proof -
  have a: "py_split (lower ''twenty-three'') = [''twenty-three'']" by code_simp
  have b: "re_sub_punct ''twenty-three'' = ''twentythree''" by code_simp
  have c: "words_to_numbers ''twentythree'' = None" by (simp add: words_to_numbers_def)
  have d: "extract_amount ''twenty-three'' = Inr None" by code_simp
  show ?thesis using a b c d by simp
qed

text \<open>
  C10: \<open>0\<close> gives the integer 0, and so does every text whose first run of digits
  is \<open>0\<close>; on a text without digits every integer result is at least 1.
\<close>

theorem extract_amount_zero_only_by_digits:
  "extract_amount ''0'' = Inr (Some 0)
   \<and> ((\<forall>c\<in>set pre. \<not> is_decimal c) \<and> (post = [] \<or> \<not> is_decimal (hd post))
        \<longrightarrow> extract_amount (pre @ ''0'' @ post) = Inr (Some 0))
   \<and> ((\<forall>c\<in>set text. \<not> is_decimal c) \<and> extract_amount text = Inr (Some n) \<longrightarrow> 1 \<le> n)"
proof -
  have z: "\<forall>c\<in>set ''0''. is_decimal c" by (simp add: is_decimal_def cp_def)
  have k: "length ''0'' \<le> max_str_digits" by (simp add: max_str_digits_def)
  have v: "decimal_value ''0'' = 0" by (simp add: decimal_value_def digit_val_def cp_def)
  have a: "extract_amount ''0'' = Inr (Some 0)" by code_simp
  have b: "(\<forall>c\<in>set pre. \<not> is_decimal c) \<and> (post = [] \<or> \<not> is_decimal (hd post))
        \<longrightarrow> extract_amount (pre @ ''0'' @ post) = Inr (Some 0)"
  proof
    assume h: "(\<forall>c\<in>set pre. \<not> is_decimal c) \<and> (post = [] \<or> \<not> is_decimal (hd post))"
    have "extract_amount (pre @ ''0'' @ post) = Inr (Some (decimal_value ''0''))"
      using h z k by (intro first_findall_run) simp_all
    then show "extract_amount (pre @ ''0'' @ post) = Inr (Some 0)" by (simp only: v)
  qed
  have c: "(\<forall>c\<in>set text. \<not> is_decimal c) \<and> extract_amount text = Inr (Some n) \<longrightarrow> 1 \<le> n"
  proof
    assume h: "(\<forall>c\<in>set text. \<not> is_decimal c) \<and> extract_amount text = Inr (Some n)"
    then have "findall_digits text = []" by (simp add: findall_empty_iff)
    then have "extract_amount text = Inr None \<or> (\<exists>m. 1 \<le> m \<and> extract_amount text = Inr (Some m))"
      by (rule word_path_result)
    then show "1 \<le> n" using h by auto
  qed
  show ?thesis using a b c by (intro conjI)
qed

theorem extract_amount_zero_only_by_digits_witness:
  "list_all (\<lambda>c. \<not> is_decimal c) ''pay '' \<and> \<not> is_decimal (hd '' rupees'')
   \<and> extract_amount (''pay '' @ ''0'' @ '' rupees'') = Inr (Some 0)
   \<and> list_all (\<lambda>c. \<not> is_decimal c) ''zero one''
   \<and> extract_amount ''zero one'' = Inr (Some 1) \<and> (1::int) \<le> 1"
proof -
  have p: "\<forall>c\<in>set ''pay ''. \<not> is_decimal c" by (simp add: is_decimal_def cp_def)
  have q: "\<not> is_decimal (hd '' rupees'')" by (simp add: is_decimal_def cp_def)
  have t: "\<forall>c\<in>set ''zero one''. \<not> is_decimal c" by (simp add: is_decimal_def cp_def)
  have e: "extract_amount ''zero one'' = Inr (Some 1)" by code_simp
  note th = extract_amount_zero_only_by_digits [of "''pay ''" "'' rupees''" "''zero one''" 1]
  have h1: "(\<forall>c\<in>set ''pay ''. \<not> is_decimal c) \<and> ('' rupees'' = [] \<or> \<not> is_decimal (hd '' rupees''))"
    using p q by (intro conjI disjI2)
  have 1: "extract_amount (''pay '' @ ''0'' @ '' rupees'') = Inr (Some 0)"
    using th [THEN conjunct2, THEN conjunct1] h1 by (rule mp)
  have h2: "(\<forall>c\<in>set ''zero one''. \<not> is_decimal c) \<and> extract_amount ''zero one'' = Inr (Some 1)"
    using t e by (intro conjI)
  have 2: "(1::int) \<le> 1"
    using th [THEN conjunct2, THEN conjunct2] h2 by (rule mp)
  show ?thesis using p q t e 1 by (simp add: list_all_iff)
qed

end
